theory Spec2Isabelle
  imports Complex_Main
begin

section \<open>The particle collision simulator of kalendarz.py\<close>

text \<open>
  The second script of \<^verbatim>\<open>kalendarz.py\<close> simulates a gas of equal discs in a window.
  Python floats are modelled as real numbers, Python ints as integers; a raised
  exception is the left summand of the result.
\<close>

subsection \<open>Constants\<close>

definition WIDTH :: int where
  "WIDTH = 800"

definition HEIGHT :: int where
  "HEIGHT = 600"

definition PARTICLE_RADIUS :: int where
  "PARTICLE_RADIUS = 5"

definition DT :: real where
  "DT = 1"

definition CELL_SIZE :: int where
  "CELL_SIZE = 4 * PARTICLE_RADIUS"

definition GRID_W :: int where
  "GRID_W = (WIDTH + CELL_SIZE - 1) div CELL_SIZE"

definition GRID_H :: int where
  "GRID_H = (HEIGHT + CELL_SIZE - 1) div CELL_SIZE"

subsection \<open>Particles\<close>

datatype py_error = ZeroDivisionError

record particle =
  x :: real
  y :: real
  vx :: real
  vy :: real

text \<open>\<^verbatim>\<open>Particle.update_position\<close>: both coordinates advance by velocity times \<^verbatim>\<open>DT\<close>.\<close>

definition update_position :: "particle \<Rightarrow> particle" where
  "update_position self = self\<lparr>x := x self + vx self * DT, y := y self + vy self * DT\<rparr>"

text \<open>
  \<^verbatim>\<open>Particle.check_walls\<close>: the two axes are handled one after the other, each with
  its own test, sign flip and clamp.
\<close>

definition check_walls :: "particle \<Rightarrow> particle" where
  "check_walls self =
     (let s1 = (if x self - real_of_int PARTICLE_RADIUS < 0
                   \<or> x self + real_of_int PARTICLE_RADIUS > real_of_int WIDTH
                then self\<lparr>vx := - vx self,
                          x := max (real_of_int PARTICLE_RADIUS)
                                 (min (x self) (real_of_int (WIDTH - PARTICLE_RADIUS)))\<rparr>
                else self)
      in (if y s1 - real_of_int PARTICLE_RADIUS < 0
             \<or> y s1 + real_of_int PARTICLE_RADIUS > real_of_int HEIGHT
          then s1\<lparr>vy := - vy s1,
                  y := max (real_of_int PARTICLE_RADIUS)
                         (min (y s1) (real_of_int (HEIGHT - PARTICLE_RADIUS)))\<rparr>
          else s1))"

text \<open>
  \<^verbatim>\<open>Particle.collide_with\<close> mutates both particles; the model returns the pair.
  \<^verbatim>\<open>dx / dist\<close> raises \<^verbatim>\<open>ZeroDivisionError\<close> when \<^verbatim>\<open>dist\<close> is zero, and the source has
  no test before the division.
\<close>

definition collide_with :: "particle \<Rightarrow> particle \<Rightarrow> py_error + particle \<times> particle" where
  "collide_with self other =
     (let dx = x other - x self;
          dy = y other - y self;
          dist2 = dx * dx + dy * dy
      in if dist2 \<ge> real_of_int (4 * PARTICLE_RADIUS * PARTICLE_RADIUS) then Inr (self, other)
         else
           let dist = sqrt dist2
           in if dist = 0 then Inl ZeroDivisionError
              else
                let nx = dx / dist;
                    ny = dy / dist;
                    dvx = vx self - vx other;
                    dvy = vy self - vy other;
                    dvn = dvx * nx + dvy * ny
                in if dvn > 0 then Inr (self, other)
                   else
                     let impulse = dvn;
                         self1 = self\<lparr>vx := vx self - impulse * nx,
                                       vy := vy self - impulse * ny\<rparr>;
                         other1 = other\<lparr>vx := vx other + impulse * nx,
                                         vy := vy other + impulse * ny\<rparr>;
                         overlap = real_of_int (2 * PARTICLE_RADIUS) - dist
                     in if overlap > 0
                        then
                          let sep = overlap / 2
                          in Inr (self1\<lparr>x := x self1 - sep * nx, y := y self1 - sep * ny\<rparr>,
                                  other1\<lparr>x := x other1 + sep * nx, y := y other1 + sep * ny\<rparr>)
                        else Inr (self1, other1))"

text \<open>
  The two quantities \<^verbatim>\<open>collide_with\<close> branches on, named after its locals: \<^verbatim>\<open>dist\<close>,
  the distance of the centres, and \<^verbatim>\<open>dvn\<close>, the velocity of \<open>self\<close> relative to
  \<open>other\<close> along the unit vector from \<open>self\<close> to \<open>other\<close>.
\<close>

definition center_distance :: "particle \<Rightarrow> particle \<Rightarrow> real" where
  "center_distance self other =
     sqrt ((x other - x self) * (x other - x self) + (y other - y self) * (y other - y self))"

definition normal_speed :: "particle \<Rightarrow> particle \<Rightarrow> real" where
  "normal_speed self other =
     (vx self - vx other) * ((x other - x self) / center_distance self other)
     + (vy self - vy other) * ((y other - y self) / center_distance self other)"

text \<open>
  Two bodies move apart or tangentially when the distance of their centres does not
  shrink: the derivative of half the squared distance along the two velocities is not
  negative.
\<close>

definition moving_apart :: "particle \<Rightarrow> particle \<Rightarrow> bool" where
  "moving_apart self other \<longleftrightarrow>
     0 \<le> (x other - x self) * (vx other - vx self) + (y other - y self) * (vy other - vy self)"

definition in_domain :: "particle \<Rightarrow> bool" where
  "in_domain p \<longleftrightarrow>
     real_of_int PARTICLE_RADIUS \<le> x p \<and> x p \<le> real_of_int (WIDTH - PARTICLE_RADIUS)
     \<and> real_of_int PARTICLE_RADIUS \<le> y p \<and> y p \<le> real_of_int (HEIGHT - PARTICLE_RADIUS)"

subsection \<open>The spatial grid\<close>

text \<open>
  \<^verbatim>\<open>simulate\<close>, step 3: the cell of a particle, each coordinate clamped into the grid.
\<close>

definition cell_of :: "particle \<Rightarrow> int \<times> int" where
  "cell_of p =
     (let gx = \<lfloor>x p / real_of_int CELL_SIZE\<rfloor>;
          gy = \<lfloor>y p / real_of_int CELL_SIZE\<rfloor>
      in (max 0 (min gx (GRID_W - 1)), max 0 (min gy (GRID_H - 1))))"

text \<open>
  The grid is a list of columns, a column a list of cells, a cell the list of the
  indices appended to it. Step 2 clears every cell; step 3 appends index \<open>i\<close> to the
  cell of particle \<open>i\<close>, in the order of \<^verbatim>\<open>enumerate(particles)\<close>.
\<close>

definition empty_grid :: "nat list list list" where
  "empty_grid = replicate (nat GRID_W) (replicate (nat GRID_H) [])"

fun fill_grid :: "nat \<Rightarrow> (int \<times> int) list \<Rightarrow> nat list list list \<Rightarrow> nat list list list" where
  "fill_grid i [] grid = grid"
| "fill_grid i ((gx, gy) # cells) grid =
     fill_grid (Suc i) cells
       (grid[nat gx := (grid ! nat gx)[nat gy := grid ! nat gx ! nat gy @ [i]]])"

definition build_grid :: "particle list \<Rightarrow> nat list list list" where
  "build_grid particles = fill_grid 0 (map cell_of particles) empty_grid"

text \<open>Cells that the clamp of \<^verbatim>\<open>simulate\<close> can produce: both coordinates inside the grid.\<close>

definition cells_in_grid :: "(int \<times> int) list \<Rightarrow> bool" where
  "cells_in_grid cells \<longleftrightarrow>
     list_all (\<lambda>c. 0 \<le> fst c \<and> fst c < GRID_W \<and> 0 \<le> snd c \<and> snd c < GRID_H) cells"

text \<open>
  Step 4 calls \<^verbatim>\<open>collide_with\<close> inside four nested loops that read the grid and never
  write it, so the pairs it visits, in order, are a function of the grid alone:
  for every cell the pairs of positions \<open>i < j\<close> inside it, then for each of the four
  offsets the pairs of an index of the cell and an index of the neighbour that pass the
  test \<^verbatim>\<open>i < j\<close>.
\<close>

definition same_cell_pairs :: "nat list \<Rightarrow> (nat \<times> nat) list" where
  "same_cell_pairs cell =
     concat (map (\<lambda>i. map (\<lambda>j. (cell ! i, cell ! j)) [i + 1 ..< length cell])
               [0 ..< length cell])"

definition stencil :: "(int \<times> int) list" where
  "stencil = [(1, 0), (1, -1), (0, -1), (-1, -1)]"

definition neighbor_pairs :: "nat list list list \<Rightarrow> int \<Rightarrow> int \<Rightarrow> (nat \<times> nat) list" where
  "neighbor_pairs grid gx gy =
     concat (map (\<lambda>(dx, dy).
        let nx = gx + dx; ny = gy + dy
        in if 0 \<le> nx \<and> nx < GRID_W \<and> 0 \<le> ny \<and> ny < GRID_H
           then concat (map (\<lambda>i. concat (map (\<lambda>j. if i < j then [(i, j)] else [])
                                              (grid ! nat nx ! nat ny)))
                            (grid ! nat gx ! nat gy))
           else []) stencil)"

definition collision_pairs :: "nat list list list \<Rightarrow> (nat \<times> nat) list" where
  "collision_pairs grid =
     concat (map (\<lambda>gx. concat (map (\<lambda>gy.
                same_cell_pairs (grid ! nat gx ! nat gy) @ neighbor_pairs grid gx gy)
              [0 .. GRID_H - 1])) [0 .. GRID_W - 1])"

text \<open>
  The enumeration the grid is meant to replace: every pair of indices \<open>i < j\<close> whose
  cells are the same or touch (also diagonally), each once.
\<close>

definition adjacent_cells :: "int \<times> int \<Rightarrow> int \<times> int \<Rightarrow> bool" where
  "adjacent_cells c d \<longleftrightarrow> \<bar>fst c - fst d\<bar> \<le> 1 \<and> \<bar>snd c - snd d\<bar> \<le> 1"

definition brute_force_pairs :: "(int \<times> int) list \<Rightarrow> (nat \<times> nat) list" where
  "brute_force_pairs cells =
     concat (map (\<lambda>i. concat (map (\<lambda>j. if adjacent_cells (cells ! i) (cells ! j)
                                           then [(i, j)] else [])
                                  [i + 1 ..< length cells]))
               [0 ..< length cells])"

subsection \<open>One frame of \<^verbatim>\<open>simulate\<close>\<close>

definition integrate :: "particle list \<Rightarrow> particle list" where
  "integrate particles = map (\<lambda>p. check_walls (update_position p)) particles"

fun resolve_pairs :: "(nat \<times> nat) list \<Rightarrow> particle list \<Rightarrow> py_error + particle list" where
  "resolve_pairs [] particles = Inr particles"
| "resolve_pairs ((i, j) # rest) particles =
     (case collide_with (particles ! i) (particles ! j) of
        Inl e \<Rightarrow> Inl e
      | Inr (p1, p2) \<Rightarrow> resolve_pairs rest (particles[i := p1, j := p2]))"

definition resolve_collisions :: "particle list \<Rightarrow> py_error + particle list" where
  "resolve_collisions particles = resolve_pairs (collision_pairs (build_grid particles)) particles"

definition kinetic_energy :: "particle list \<Rightarrow> real" where
  "kinetic_energy particles = (\<Sum>p\<leftarrow>particles. 0.5 * ((vx p)\<^sup>2 + (vy p)\<^sup>2))"

text \<open>
  Step 6: the printed line is modelled by the number it carries, \<open>None\<close> when nothing
  is printed.
\<close>

definition energy_diagnostic :: "real \<Rightarrow> particle list \<Rightarrow> real option" where
  "energy_diagnostic total_energy particles =
     (let current_energy = kinetic_energy particles;
          diff = \<bar>current_energy - total_energy\<bar>
      in if diff > 1 / 1000 then Some diff else None)"

definition simulate_step :: "real \<Rightarrow> particle list \<Rightarrow> py_error + particle list \<times> real option" where
  "simulate_step total_energy particles =
     (case resolve_collisions (integrate particles) of
        Inl e \<Rightarrow> Inl e
      | Inr particles' \<Rightarrow> Inr (particles', energy_diagnostic total_energy particles'))"

text \<open>
  The loop of \<^verbatim>\<open>simulate\<close> runs until the window is closed; \<open>frames\<close> is the number of
  frames drawn before that, and the particles drawn at random before the loop are the
  argument. The result is the final particles and the diagnostics of the frames in
  order. \<^verbatim>\<open>total_energy\<close> is computed once, before the loop.
\<close>

fun run :: "real \<Rightarrow> nat \<Rightarrow> particle list \<Rightarrow> py_error + particle list \<times> real option list" where
  "run total_energy 0 particles = Inr (particles, [])"
| "run total_energy (Suc frames) particles =
     (case simulate_step total_energy particles of
        Inl e \<Rightarrow> Inl e
      | Inr (particles', d) \<Rightarrow>
          (case run total_energy frames particles' of
             Inl e \<Rightarrow> Inl e
           | Inr (final, ds) \<Rightarrow> Inr (final, d # ds)))"

definition simulate :: "nat \<Rightarrow> particle list \<Rightarrow> py_error + particle list \<times> real option list" where
  "simulate frames particles = run (kinetic_energy particles) frames particles"

section \<open>Wall handling\<close>

text \<open>
  C10: \<^verbatim>\<open>check_walls\<close> leaves each velocity component as it is or negates it, so the
  squared speed of the particle (twice its kinetic energy) is the same before and after,
  wherever the particle is.
\<close>

theorem check_walls_preserves_speed2:
  "(vx (check_walls p))\<^sup>2 + (vy (check_walls p))\<^sup>2 = (vx p)\<^sup>2 + (vy p)\<^sup>2"
  by (simp add: check_walls_def Let_def)

text \<open>
  C9: a particle at \<open>(PARTICLE_RADIUS - 1, b)\<close> moving left with speed \<open>s > 0\<close>, with
  \<open>b\<close> inside the vertical bounds, is after \<^verbatim>\<open>update_position\<close> and \<^verbatim>\<open>check_walls\<close>
  at \<open>(PARTICLE_RADIUS, b)\<close> and moves right with speed \<open>s\<close>.
\<close>

theorem integrator_left_wall_bounce:
  assumes "0 < s"
    and "real_of_int PARTICLE_RADIUS \<le> b"
    and "b \<le> real_of_int (HEIGHT - PARTICLE_RADIUS)"
  shows "check_walls (update_position
           \<lparr>x = real_of_int (PARTICLE_RADIUS - 1), y = b, vx = - s, vy = 0\<rparr>)
         = \<lparr>x = real_of_int PARTICLE_RADIUS, y = b, vx = s, vy = 0\<rparr>"
  using assms
  by (simp add: check_walls_def update_position_def Let_def DT_def
      PARTICLE_RADIUS_def WIDTH_def HEIGHT_def)

theorem integrator_left_wall_bounce_witness:
  "(0::real) < 3 \<and> real_of_int PARTICLE_RADIUS \<le> 300
   \<and> (300::real) \<le> real_of_int (HEIGHT - PARTICLE_RADIUS)
   \<and> check_walls (update_position
        \<lparr>x = real_of_int (PARTICLE_RADIUS - 1), y = 300, vx = - 3, vy = 0\<rparr>)
      = \<lparr>x = real_of_int PARTICLE_RADIUS, y = 300, vx = 3, vy = 0\<rparr>"
  using integrator_left_wall_bounce [of 3 300]
  by (simp add: PARTICLE_RADIUS_def HEIGHT_def)

lemma check_walls_in_domain: "in_domain (check_walls p)"
  by (simp add: in_domain_def check_walls_def Let_def PARTICLE_RADIUS_def WIDTH_def HEIGHT_def)

text \<open>
  C3: after the position update and the wall handling of a frame the centre of every
  particle is at least one radius away from each wall. The collisions of the same frame
  come after the wall handling and push particles apart without looking at the walls,
  so the bound holds at this point of the frame and is not promised at its end.
\<close>

theorem wall_containment_after_integration:
  "list_all in_domain (integrate ps)"
  by (simp add: list_all_iff integrate_def check_walls_in_domain)

section \<open>Pair collisions\<close>

lemma sqrt_100: "sqrt 100 = 10"
  using real_sqrt_abs [of 10] by simp

lemma sqrt_64: "sqrt 64 = 8"
  using real_sqrt_abs [of 8] by simp

lemma sqrt_less_10: "sqrt d < 10 \<longleftrightarrow> d < 100"
  using real_sqrt_less_iff [of d 100] by (simp add: sqrt_100)

lemma unit_normal:
  fixes a b :: real
  assumes "sqrt (a * a + b * b) \<noteq> 0"
  shows "(a / sqrt (a * a + b * b)) * (a / sqrt (a * a + b * b))
         + (b / sqrt (a * a + b * b)) * (b / sqrt (a * a + b * b)) = 1"
proof -
  define s where "s = sqrt (a * a + b * b)"
  have nn: "0 \<le> a * a + b * b" by simp
  have ss: "s * s = a * a + b * b"
    unfolding s_def using nn by simp
  have "(a / s) * (a / s) + (b / s) * (b / s) = (a * a + b * b) / (s * s)"
    by (simp add: add_divide_distrib)
  also have "\<dots> = 1" using assms ss s_def by simp
  finally show ?thesis unfolding s_def .
qed

lemma collide_with_impulse:
  assumes "center_distance p q \<noteq> 0"
    and "center_distance p q < real_of_int (2 * PARTICLE_RADIUS)"
    and "normal_speed p q \<le> 0"
  shows "collide_with p q = Inr
     (p\<lparr>vx := vx p - normal_speed p q * ((x q - x p) / center_distance p q),
        vy := vy p - normal_speed p q * ((y q - y p) / center_distance p q),
        x := x p - (real_of_int (2 * PARTICLE_RADIUS) - center_distance p q) / 2
                   * ((x q - x p) / center_distance p q),
        y := y p - (real_of_int (2 * PARTICLE_RADIUS) - center_distance p q) / 2
                   * ((y q - y p) / center_distance p q)\<rparr>,
      q\<lparr>vx := vx q + normal_speed p q * ((x q - x p) / center_distance p q),
        vy := vy q + normal_speed p q * ((y q - y p) / center_distance p q),
        x := x q + (real_of_int (2 * PARTICLE_RADIUS) - center_distance p q) / 2
                   * ((x q - x p) / center_distance p q),
        y := y q + (real_of_int (2 * PARTICLE_RADIUS) - center_distance p q) / 2
                   * ((y q - y p) / center_distance p q)\<rparr>)"
proof -
  let ?d2 = "(x q - x p) * (x q - x p) + (y q - y p) * (y q - y p)"
  have lt: "sqrt ?d2 < 10"
    using assms(2) by (simp add: center_distance_def PARTICLE_RADIUS_def)
  then have "?d2 < 100" by (simp only: sqrt_less_10)
  then have a: "\<not> 100 \<le> ?d2" by simp
  have b: "sqrt ?d2 \<noteq> 0"
    using assms(1) unfolding center_distance_def .
  have c: "\<not> 0 < (vx p - vx q) * ((x q - x p) / sqrt ?d2) + (vy p - vy q) * ((y q - y p) / sqrt ?d2)"
    using assms(3) unfolding center_distance_def normal_speed_def not_less .
  have d: "0 < 10 - sqrt ?d2" using lt by simp
  show ?thesis
    unfolding collide_with_def Let_def center_distance_def normal_speed_def PARTICLE_RADIUS_def
    using a b c d by (simp del: real_sqrt_eq_zero_cancel_iff)
qed

lemma impulse_energy:
  fixes a b c e nx ny d :: real
  assumes "nx * nx + ny * ny = 1"
    and "d = (a - c) * nx + (b - e) * ny"
  shows "(a - d * nx)\<^sup>2 + (b - d * ny)\<^sup>2 + ((c + d * nx)\<^sup>2 + (e + d * ny)\<^sup>2)
         = a\<^sup>2 + b\<^sup>2 + (c\<^sup>2 + e\<^sup>2)"
proof -
  have "(a - d * nx)\<^sup>2 + (b - d * ny)\<^sup>2 + ((c + d * nx)\<^sup>2 + (e + d * ny)\<^sup>2)
        = a\<^sup>2 + b\<^sup>2 + (c\<^sup>2 + e\<^sup>2) - 2 * d * ((a - c) * nx + (b - e) * ny)
          + 2 * (d * d) * (nx * nx + ny * ny)"
    by (simp add: power2_eq_square algebra_simps)
  also have "\<dots> = a\<^sup>2 + b\<^sup>2 + (c\<^sup>2 + e\<^sup>2) - 2 * d * d + 2 * (d * d)"
    using assms by simp
  finally show ?thesis by simp
qed

text \<open>
  C4: when \<^verbatim>\<open>collide_with\<close> reaches its impulse (the centres are apart, closer than two
  radii, and \<^verbatim>\<open>dvn\<close> is not positive) it returns, and the pair's total momentum on
  each axis and its total kinetic energy are those from before the call, whatever the
  velocities were.
\<close>

theorem collide_with_conserves:
  assumes "center_distance p q \<noteq> 0"
    and "center_distance p q < real_of_int (2 * PARTICLE_RADIUS)"
    and "normal_speed p q \<le> 0"
  shows "\<exists>p' q'. collide_with p q = Inr (p', q')
           \<and> vx p' + vx q' = vx p + vx q
           \<and> vy p' + vy q' = vy p + vy q
           \<and> kinetic_energy [p', q'] = kinetic_energy [p, q]"
proof -
  define nx where "nx = (x q - x p) / center_distance p q"
  define ny where "ny = (y q - y p) / center_distance p q"
  define d where "d = normal_speed p q"
  have n1: "nx * nx + ny * ny = 1"
    unfolding nx_def ny_def center_distance_def
    using assms(1) unfolding center_distance_def by (rule unit_normal)
  have dd: "d = (vx p - vx q) * nx + (vy p - vy q) * ny"
    unfolding d_def nx_def ny_def normal_speed_def ..
  have e: "(vx p - d * nx)\<^sup>2 + (vy p - d * ny)\<^sup>2 + ((vx q + d * nx)\<^sup>2 + (vy q + d * ny)\<^sup>2)
           = (vx p)\<^sup>2 + (vy p)\<^sup>2 + ((vx q)\<^sup>2 + (vy q)\<^sup>2)"
    using n1 dd by (rule impulse_energy)
  have e': "0.5 * ((vx p - d * nx)\<^sup>2 + (vy p - d * ny)\<^sup>2)
            + 0.5 * ((vx q + d * nx)\<^sup>2 + (vy q + d * ny)\<^sup>2)
            = 0.5 * ((vx p)\<^sup>2 + (vy p)\<^sup>2) + 0.5 * ((vx q)\<^sup>2 + (vy q)\<^sup>2)"
    using arg_cong [OF e, of "\<lambda>t. 0.5 * t"] by (simp only: distrib_left)
  have "collide_with p q = Inr
     (p\<lparr>vx := vx p - d * nx, vy := vy p - d * ny,
        x := x p - (real_of_int (2 * PARTICLE_RADIUS) - center_distance p q) / 2 * nx,
        y := y p - (real_of_int (2 * PARTICLE_RADIUS) - center_distance p q) / 2 * ny\<rparr>,
      q\<lparr>vx := vx q + d * nx, vy := vy q + d * ny,
        x := x q + (real_of_int (2 * PARTICLE_RADIUS) - center_distance p q) / 2 * nx,
        y := y q + (real_of_int (2 * PARTICLE_RADIUS) - center_distance p q) / 2 * ny\<rparr>)"
    unfolding nx_def ny_def d_def using assms by (rule collide_with_impulse)
  moreover have "kinetic_energy
     [p\<lparr>vx := vx p - d * nx, vy := vy p - d * ny,
        x := x p - (real_of_int (2 * PARTICLE_RADIUS) - center_distance p q) / 2 * nx,
        y := y p - (real_of_int (2 * PARTICLE_RADIUS) - center_distance p q) / 2 * ny\<rparr>,
      q\<lparr>vx := vx q + d * nx, vy := vy q + d * ny,
        x := x q + (real_of_int (2 * PARTICLE_RADIUS) - center_distance p q) / 2 * nx,
        y := y q + (real_of_int (2 * PARTICLE_RADIUS) - center_distance p q) / 2 * ny\<rparr>]
     = kinetic_energy [p, q]"
    using e' by (simp add: kinetic_energy_def)
  ultimately show ?thesis by simp
qed


lemma tangent_after_push:
  fixes a b s :: real
  assumes "s \<noteq> 0" and "s * s = a * a + b * b"
  shows "(a + (10 - s) / 2 * (a / s) + (10 - s) / 2 * (a / s))
           * (a + (10 - s) / 2 * (a / s) + (10 - s) / 2 * (a / s))
         + (b + (10 - s) / 2 * (b / s) + (10 - s) / 2 * (b / s))
           * (b + (10 - s) / 2 * (b / s) + (10 - s) / 2 * (b / s)) = 100"
proof -
  have a': "a + (10 - s) / 2 * (a / s) + (10 - s) / 2 * (a / s) = 10 * (a / s)"
    using assms(1) by (simp add: field_simps)
  have b': "b + (10 - s) / 2 * (b / s) + (10 - s) / 2 * (b / s) = 10 * (b / s)"
    using assms(1) by (simp add: field_simps)
  have "10 * (a / s) * (10 * (a / s)) + 10 * (b / s) * (10 * (b / s))
        = 100 * ((a * a + b * b) / (s * s))"
    by (simp add: add_divide_distrib)
  also have "\<dots> = 100"
    unfolding assms(2) [symmetric] using assms(1) by simp
  finally show ?thesis unfolding a' b' .
qed

text \<open>
  C7: when \<^verbatim>\<open>collide_with\<close> reaches its impulse on two particles whose centres are
  apart and closer than two radii, the centres are exactly two radii apart afterwards,
  each particle moved by half the overlap along the line of centres.
\<close>

theorem collide_with_restores_tangency:
  assumes "center_distance p q \<noteq> 0"
    and "center_distance p q < real_of_int (2 * PARTICLE_RADIUS)"
    and "normal_speed p q \<le> 0"
  shows "\<exists>p' q'. collide_with p q = Inr (p', q')
           \<and> center_distance p' q' = real_of_int (2 * PARTICLE_RADIUS)
           \<and> x p' = x p - (real_of_int (2 * PARTICLE_RADIUS) - center_distance p q) / 2
                           * ((x q - x p) / center_distance p q)
           \<and> y p' = y p - (real_of_int (2 * PARTICLE_RADIUS) - center_distance p q) / 2
                           * ((y q - y p) / center_distance p q)
           \<and> x q' = x q + (real_of_int (2 * PARTICLE_RADIUS) - center_distance p q) / 2
                           * ((x q - x p) / center_distance p q)
           \<and> y q' = y q + (real_of_int (2 * PARTICLE_RADIUS) - center_distance p q) / 2
                           * ((y q - y p) / center_distance p q)"
proof -
  define a where "a = x q - x p"
  define b where "b = y q - y p"
  define s where "s = center_distance p q"
  define p' where "p' =
     p\<lparr>vx := vx p - normal_speed p q * ((x q - x p) / center_distance p q),
       vy := vy p - normal_speed p q * ((y q - y p) / center_distance p q),
       x := x p - (real_of_int (2 * PARTICLE_RADIUS) - center_distance p q) / 2
                  * ((x q - x p) / center_distance p q),
       y := y p - (real_of_int (2 * PARTICLE_RADIUS) - center_distance p q) / 2
                  * ((y q - y p) / center_distance p q)\<rparr>"
  define q' where "q' =
     q\<lparr>vx := vx q + normal_speed p q * ((x q - x p) / center_distance p q),
       vy := vy q + normal_speed p q * ((y q - y p) / center_distance p q),
       x := x q + (real_of_int (2 * PARTICLE_RADIUS) - center_distance p q) / 2
                  * ((x q - x p) / center_distance p q),
       y := y q + (real_of_int (2 * PARTICLE_RADIUS) - center_distance p q) / 2
                  * ((y q - y p) / center_distance p q)\<rparr>"
  have r: "real_of_int (2 * PARTICLE_RADIUS) = 10"
    by (simp add: PARTICLE_RADIUS_def)
  have res: "collide_with p q = Inr (p', q')"
    unfolding p'_def q'_def using assms by (rule collide_with_impulse)
  have xp: "x p' = x p - (10 - s) / 2 * (a / s)"
    and yp: "y p' = y p - (10 - s) / 2 * (b / s)"
    and xq: "x q' = x q + (10 - s) / 2 * (a / s)"
    and yq: "y q' = y q + (10 - s) / 2 * (b / s)"
    unfolding p'_def q'_def r a_def b_def s_def by simp_all
  have s0: "s \<noteq> 0" using assms(1) unfolding s_def .
  have ss: "s * s = a * a + b * b"
    unfolding s_def a_def b_def center_distance_def by simp
  have t: "(a + (10 - s) / 2 * (a / s) + (10 - s) / 2 * (a / s))
             * (a + (10 - s) / 2 * (a / s) + (10 - s) / 2 * (a / s))
           + (b + (10 - s) / 2 * (b / s) + (10 - s) / 2 * (b / s))
             * (b + (10 - s) / 2 * (b / s) + (10 - s) / 2 * (b / s)) = 100"
    using s0 ss by (rule tangent_after_push)
  have xs: "x q + (10 - s) / 2 * (a / s) - (x p - (10 - s) / 2 * (a / s))
            = a + (10 - s) / 2 * (a / s) + (10 - s) / 2 * (a / s)"
    by (simp add: a_def)
  have ys: "y q + (10 - s) / 2 * (b / s) - (y p - (10 - s) / 2 * (b / s))
            = b + (10 - s) / 2 * (b / s) + (10 - s) / 2 * (b / s)"
    by (simp add: b_def)
  have cd: "center_distance p' q' = real_of_int (2 * PARTICLE_RADIUS)"
    unfolding center_distance_def xp yp xq yq xs ys t r by (rule sqrt_100)
  have "x p' = x p - (real_of_int (2 * PARTICLE_RADIUS) - center_distance p q) / 2
                     * ((x q - x p) / center_distance p q)"
    and "y p' = y p - (real_of_int (2 * PARTICLE_RADIUS) - center_distance p q) / 2
                     * ((y q - y p) / center_distance p q)"
    and "x q' = x q + (real_of_int (2 * PARTICLE_RADIUS) - center_distance p q) / 2
                     * ((x q - x p) / center_distance p q)"
    and "y q' = y q + (real_of_int (2 * PARTICLE_RADIUS) - center_distance p q) / 2
                     * ((y q - y p) / center_distance p q)"
    unfolding p'_def q'_def by simp_all
  with res cd show ?thesis by blast
qed

theorem collide_with_conserves_witness:
  "center_distance \<lparr>x = 0, y = 0, vx = - 1, vy = 0\<rparr> \<lparr>x = 8, y = 0, vx = 1, vy = 0\<rparr> \<noteq> 0
   \<and> center_distance \<lparr>x = 0, y = 0, vx = - 1, vy = 0\<rparr> \<lparr>x = 8, y = 0, vx = 1, vy = 0\<rparr>
       < real_of_int (2 * PARTICLE_RADIUS)
   \<and> normal_speed \<lparr>x = 0, y = 0, vx = - 1, vy = 0\<rparr> \<lparr>x = 8, y = 0, vx = 1, vy = 0\<rparr> \<le> 0
   \<and> (\<exists>p' q'. collide_with \<lparr>x = 0, y = 0, vx = - 1, vy = 0\<rparr> \<lparr>x = 8, y = 0, vx = 1, vy = 0\<rparr>
                  = Inr (p', q')
         \<and> vx p' + vx q' = 0 \<and> vy p' + vy q' = 0
         \<and> kinetic_energy [p', q']
             = kinetic_energy [\<lparr>x = 0, y = 0, vx = - 1, vy = 0\<rparr>, \<lparr>x = 8, y = 0, vx = 1, vy = 0\<rparr>])"
  using collide_with_conserves
    [of "\<lparr>x = 0, y = 0, vx = - 1, vy = 0\<rparr>" "\<lparr>x = 8, y = 0, vx = 1, vy = 0\<rparr>"]
  by (simp add: center_distance_def normal_speed_def sqrt_64 PARTICLE_RADIUS_def)

theorem collide_with_restores_tangency_witness:
  "center_distance \<lparr>x = 0, y = 0, vx = - 1, vy = 0\<rparr> \<lparr>x = 8, y = 0, vx = 1, vy = 0\<rparr> \<noteq> 0
   \<and> center_distance \<lparr>x = 0, y = 0, vx = - 1, vy = 0\<rparr> \<lparr>x = 8, y = 0, vx = 1, vy = 0\<rparr>
       < real_of_int (2 * PARTICLE_RADIUS)
   \<and> normal_speed \<lparr>x = 0, y = 0, vx = - 1, vy = 0\<rparr> \<lparr>x = 8, y = 0, vx = 1, vy = 0\<rparr> \<le> 0
   \<and> (\<exists>p' q'. collide_with \<lparr>x = 0, y = 0, vx = - 1, vy = 0\<rparr> \<lparr>x = 8, y = 0, vx = 1, vy = 0\<rparr>
                  = Inr (p', q')
         \<and> center_distance p' q' = real_of_int (2 * PARTICLE_RADIUS)
         \<and> x p' = - 1 \<and> y p' = 0 \<and> x q' = 9 \<and> y q' = 0)"
  using collide_with_restores_tangency
    [of "\<lparr>x = 0, y = 0, vx = - 1, vy = 0\<rparr>" "\<lparr>x = 8, y = 0, vx = 1, vy = 0\<rparr>"]
  by (simp add: center_distance_def [of "\<lparr>x = 0, y = 0, vx = - 1, vy = 0\<rparr>"]
      normal_speed_def sqrt_64 PARTICLE_RADIUS_def)

text \<open>
  The sign of \<^verbatim>\<open>dvn\<close>: it is positive when the two particles approach each other,
  and not positive exactly when they move apart or tangentially. The early return
  on \<^verbatim>\<open>dvn > 0\<close> therefore skips the approaching pairs.
\<close>

lemma moving_apart_iff_normal_speed:
  assumes "center_distance p q \<noteq> 0"
  shows "moving_apart p q \<longleftrightarrow> normal_speed p q \<le> 0"
proof -
  define s where "s = center_distance p q"
  define m where "m = (x q - x p) * (vx q - vx p) + (y q - y p) * (vy q - vy p)"
  have "0 \<le> s" unfolding s_def center_distance_def by simp
  with assms have pos: "0 < s" unfolding s_def by simp
  have ns: "normal_speed p q = (- m) / s"
    unfolding normal_speed_def s_def [symmetric] m_def using pos by (simp add: field_simps)
  have "(- m) / s \<le> 0 \<longleftrightarrow> 0 \<le> m"
    using pos by (simp add: zero_le_divide_iff)
  then show ?thesis
    unfolding moving_apart_def ns m_def by simp
qed

lemma collide_with_approaching_skipped:
  assumes "center_distance p q \<noteq> 0"
    and "0 < normal_speed p q"
  shows "collide_with p q = Inr (p, q)"
  using assms unfolding collide_with_def Let_def center_distance_def normal_speed_def
  by (simp del: real_sqrt_eq_zero_cancel_iff)

text \<open>
  C2: the comment at the early return says the particles are getting further from each
  other, but the test holds when they approach. On two overlapping particles that move
  apart the call goes on to the impulse and swaps the velocities, where the claim wants
  them unchanged.
\<close>

theorem collide_with_moving_apart_gets_impulse:
  "moving_apart \<lparr>x = 0, y = 0, vx = - 1, vy = 0\<rparr> \<lparr>x = 8, y = 0, vx = 1, vy = 0\<rparr>
   \<and> center_distance \<lparr>x = 0, y = 0, vx = - 1, vy = 0\<rparr> \<lparr>x = 8, y = 0, vx = 1, vy = 0\<rparr>
       < real_of_int (2 * PARTICLE_RADIUS)
   \<and> collide_with \<lparr>x = 0, y = 0, vx = - 1, vy = 0\<rparr> \<lparr>x = 8, y = 0, vx = 1, vy = 0\<rparr>
       = Inr (\<lparr>x = - 1, y = 0, vx = 1, vy = 0\<rparr>, \<lparr>x = 9, y = 0, vx = - 1, vy = 0\<rparr>)"
  by (simp add: moving_apart_def center_distance_def collide_with_def Let_def sqrt_64
      PARTICLE_RADIUS_def)

text \<open>
  C5: on two particles with the same centre \<^verbatim>\<open>dist\<close> is zero and the division
  raises \<^verbatim>\<open>ZeroDivisionError\<close>, whatever the velocities are.
\<close>

theorem collide_with_coincident_raises:
  "collide_with p (q\<lparr>x := x p, y := y p\<rparr>) = Inl ZeroDivisionError"
  by (simp add: collide_with_def Let_def PARTICLE_RADIUS_def)

text \<open>
  C6: two particles on a horizontal line, exactly two radii apart, the left one moving
  right and the right one moving left with the same speed. The squared distance is not
  below the threshold of the first test, so the call returns at once and changes
  nothing: the velocities are not exchanged.
\<close>

theorem collide_with_tangent_head_on_unchanged:
  "collide_with \<lparr>x = a, y = b, vx = s, vy = 0\<rparr>
       \<lparr>x = a + real_of_int (2 * PARTICLE_RADIUS), y = b, vx = - s, vy = 0\<rparr>
   = Inr (\<lparr>x = a, y = b, vx = s, vy = 0\<rparr>,
          \<lparr>x = a + real_of_int (2 * PARTICLE_RADIUS), y = b, vx = - s, vy = 0\<rparr>)"
  by (simp add: collide_with_def Let_def PARTICLE_RADIUS_def)

text \<open>
  With speed 1 and the left particle at the origin, the result is not the exchange.
\<close>

theorem collide_with_tangent_head_on_exchange_counterexample:
  "collide_with \<lparr>x = 0, y = 0, vx = 1, vy = 0\<rparr>
       \<lparr>x = 0 + real_of_int (2 * PARTICLE_RADIUS), y = 0, vx = - 1, vy = 0\<rparr>
   \<noteq> Inr (\<lparr>x = 0, y = 0, vx = - 1, vy = 0\<rparr>,
           \<lparr>x = 0 + real_of_int (2 * PARTICLE_RADIUS), y = 0, vx = 1, vy = 0\<rparr>)"
  by (simp add: collide_with_def Let_def PARTICLE_RADIUS_def)

section \<open>The frame\<close>

text \<open>The clamp keeps every cell inside the grid, so no access to the grid is out of range.\<close>

lemma cell_of_in_grid:
  "0 \<le> fst (cell_of p) \<and> fst (cell_of p) < GRID_W \<and> 0 \<le> snd (cell_of p) \<and> snd (cell_of p) < GRID_H"
  by (simp add: cell_of_def Let_def GRID_W_def GRID_H_def WIDTH_def HEIGHT_def CELL_SIZE_def
      PARTICLE_RADIUS_def min_less_iff_disj)

lemma cells_of_particles_in_grid: "cells_in_grid (map cell_of particles)"
  by (simp add: cells_in_grid_def list_all_iff cell_of_in_grid)

subsection \<open>The content of the grid\<close>

text \<open>
  After the fill, a cell holds the indices of the particles assigned to it, in
  increasing order.
\<close>

lemma fill_grid_length: "length (fill_grid k cells g) = length g"
  by (induction k cells g rule: fill_grid.induct) simp_all

lemma update_cell_column_length:
  "c < length g \<Longrightarrow> length (g[i := (g ! i)[j := v]] ! c) = length (g ! c)"
  by (cases "c = i") simp_all

lemma fill_grid_column_length:
  "a < length g \<Longrightarrow> length (fill_grid k cells g ! a) = length (g ! a)"
proof (induction k cells g rule: fill_grid.induct)
  case (1 i grid)
  then show ?case by simp
next
  case (2 i gx gy cells grid)
  then show ?case by (simp add: update_cell_column_length)
qed

lemma fill_grid_nth:
  assumes "\<forall>c\<in>set cells. 0 \<le> fst c \<and> nat (fst c) < length g
                         \<and> 0 \<le> snd c \<and> nat (snd c) < length (g ! nat (fst c))"
    and "a < length g" and "b < length (g ! a)"
  shows "fill_grid k cells g ! a ! b
         = g ! a ! b @ map fst (filter (\<lambda>ic. snd ic = (int a, int b)) (enumerate k cells))"
  using assms
proof (induction k cells g rule: fill_grid.induct)
  case (1 i grid)
  then show ?case by simp
next
  case (2 i gx gy cells grid)
  let ?g = "grid[nat gx := (grid ! nat gx)[nat gy := grid ! nat gx ! nat gy @ [i]]]"
  have rng: "0 \<le> gx" "nat gx < length grid" "0 \<le> gy" "nat gy < length (grid ! nat gx)"
    using "2.prems"(1) by simp_all
  have len: "length ?g = length grid" by simp
  have col: "\<And>c. c < length grid \<Longrightarrow> length (?g ! c) = length (grid ! c)"
    by (rule update_cell_column_length)
  have pre: "\<forall>c\<in>set cells. 0 \<le> fst c \<and> nat (fst c) < length ?g
                         \<and> 0 \<le> snd c \<and> nat (snd c) < length (?g ! nat (fst c))"
    using "2.prems"(1) col by simp
  have ih: "fill_grid (Suc i) cells ?g ! a ! b
         = ?g ! a ! b @ map fst (filter (\<lambda>ic. snd ic = (int a, int b)) (enumerate (Suc i) cells))"
    using "2.IH" [OF pre] "2.prems"(2,3) col by simp
  have here: "?g ! a ! b = (if (gx, gy) = (int a, int b) then grid ! a ! b @ [i] else grid ! a ! b)"
    using rng "2.prems"(2,3) by (auto simp: nth_list_update)
  show ?case
    unfolding fill_grid.simps ih here by simp
qed

lemma empty_grid_nth:
  assumes "a < nat GRID_W" and "b < nat GRID_H"
  shows "empty_grid ! a ! b = []"
  using assms by (simp add: empty_grid_def)

lemma grid_cell_content:
  assumes "cells_in_grid cells"
    and "0 \<le> gx" "gx < GRID_W" "0 \<le> gy" "gy < GRID_H"
  shows "fill_grid 0 cells empty_grid ! nat gx ! nat gy
         = map fst (filter (\<lambda>ic. snd ic = (gx, gy)) (enumerate 0 cells))"
proof -
  have a: "nat gx < length empty_grid" using assms by (simp add: empty_grid_def)
  have b: "nat gy < length (empty_grid ! nat gx)" using assms by (simp add: empty_grid_def)
  have pre: "\<forall>c\<in>set cells. 0 \<le> fst c \<and> nat (fst c) < length empty_grid
                         \<and> 0 \<le> snd c \<and> nat (snd c) < length (empty_grid ! nat (fst c))"
    using assms(1) by (auto simp: cells_in_grid_def list_all_iff empty_grid_def)
  show ?thesis
    using fill_grid_nth [OF pre a b, of 0] assms by (simp add: empty_grid_def)
qed

lemma set_grid_cell:
  assumes "cells_in_grid cells"
    and "0 \<le> gx" "gx < GRID_W" "0 \<le> gy" "gy < GRID_H"
  shows "set (fill_grid 0 cells empty_grid ! nat gx ! nat gy)
         = {i. i < length cells \<and> cells ! i = (gx, gy)}"
  unfolding grid_cell_content [OF assms]
  by (auto simp: in_set_enumerate_eq image_iff)

lemma sorted_grid_cell:
  assumes "cells_in_grid cells"
    and "0 \<le> gx" "gx < GRID_W" "0 \<le> gy" "gy < GRID_H"
  shows "sorted_wrt (<) (fill_grid 0 cells empty_grid ! nat gx ! nat gy)"
proof -
  have "sorted_wrt (<) (map fst (enumerate 0 cells))"
    by simp
  then have "sorted_wrt (\<lambda>p q. fst p < fst q) (enumerate 0 cells)"
    unfolding sorted_wrt_map .
  then have "sorted_wrt (\<lambda>p q. fst p < fst q) (filter (\<lambda>ic. snd ic = (gx, gy)) (enumerate 0 cells))"
    by (rule sorted_wrt_filter)
  then show ?thesis
    unfolding grid_cell_content [OF assms] sorted_wrt_map .
qed

subsection \<open>The pairs a frame tests\<close>

text \<open>
  The frame tests the pair \<open>(u, v)\<close> exactly when \<open>u < v\<close> and the cell of \<open>v\<close> is the
  cell of \<open>u\<close> or lies at one of the four offsets from it; it tests no pair twice.
  Against the enumeration of all pairs in equal or touching cells it therefore tests
  nothing else, and misses the pairs \<open>u < v\<close> in which the cell of \<open>u\<close> lies at one of
  the four offsets from the cell of \<open>v\<close>.
\<close>

lemma set_same_cell_pairs:
  assumes "sorted_wrt (<) cell"
  shows "set (same_cell_pairs cell) = {(u, v). u \<in> set cell \<and> v \<in> set cell \<and> u < v}"
proof (rule set_eqI, clarify)
  fix u v
  show "(u, v) \<in> set (same_cell_pairs cell) \<longleftrightarrow> (u, v) \<in> {(u, v). u \<in> set cell \<and> v \<in> set cell \<and> u < v}"
  proof
    assume "(u, v) \<in> set (same_cell_pairs cell)"
    then obtain i j where ij: "i < j" "j < length cell" "u = cell ! i" "v = cell ! j"
      by (auto simp: same_cell_pairs_def Suc_le_eq)
    then have "u < v" using assms sorted_wrt_nth_less by blast
    with ij show "(u, v) \<in> {(u, v). u \<in> set cell \<and> v \<in> set cell \<and> u < v}" by simp
  next
    assume "(u, v) \<in> {(u, v). u \<in> set cell \<and> v \<in> set cell \<and> u < v}"
    then have uv: "u \<in> set cell" "v \<in> set cell" "u < v" by simp_all
    then obtain i j where ij: "i < length cell" "u = cell ! i" "j < length cell" "v = cell ! j"
      by (auto simp: in_set_conv_nth)
    have "i < j"
    proof (rule ccontr)
      assume "\<not> i < j"
      then have "j = i \<or> j < i" by arith
      then show False
      proof
        assume "j = i"
        with ij uv show False by simp
      next
        assume "j < i"
        then have "cell ! j < cell ! i" using assms ij(1) sorted_wrt_nth_less by blast
        with ij uv show False by simp
      qed
    qed
    with ij show "(u, v) \<in> set (same_cell_pairs cell)"
      by (auto simp: same_cell_pairs_def Suc_le_eq intro!: bexI [of _ i] image_eqI [of _ _ j])
  qed
qed

lemma set_neighbor_pairs:
  "set (neighbor_pairs grid gx gy)
   = {(u, v). \<exists>d \<in> set stencil.
        0 \<le> gx + fst d \<and> gx + fst d < GRID_W \<and> 0 \<le> gy + snd d \<and> gy + snd d < GRID_H
        \<and> u \<in> set (grid ! nat gx ! nat gy)
        \<and> v \<in> set (grid ! nat (gx + fst d) ! nat (gy + snd d)) \<and> u < v}"
  unfolding neighbor_pairs_def Let_def
  apply (auto split: if_splits)
  subgoal for dx dy u v
    by (rule bexI [of _ "(dx, dy)"]) simp_all
  done


lemma in_collision_pairs:
  "(u, v) \<in> set (collision_pairs grid) \<longleftrightarrow>
     (\<exists>gx gy. 0 \<le> gx \<and> gx < GRID_W \<and> 0 \<le> gy \<and> gy < GRID_H
        \<and> ((u, v) \<in> set (same_cell_pairs (grid ! nat gx ! nat gy))
           \<or> (u, v) \<in> set (neighbor_pairs grid gx gy)))"
  unfolding collision_pairs_def
  by (simp add: Bex_def zle_diff1_eq)

lemma cells_in_grid_nth:
  assumes "cells_in_grid cells" and "i < length cells"
  shows "0 \<le> fst (cells ! i) \<and> fst (cells ! i) < GRID_W
         \<and> 0 \<le> snd (cells ! i) \<and> snd (cells ! i) < GRID_H"
  using assms by (simp add: cells_in_grid_def list_all_length)

lemma collision_pairs_iff:
  assumes "cells_in_grid cells"
  shows "(u, v) \<in> set (collision_pairs (fill_grid 0 cells empty_grid)) \<longleftrightarrow>
           u < v \<and> v < length cells
           \<and> (cells ! u = cells ! v
              \<or> (\<exists>d \<in> set stencil.
                    cells ! v = (fst (cells ! u) + fst d, snd (cells ! u) + snd d)))"
    (is "?lhs \<longleftrightarrow> ?rhs")
proof
  let ?G = "fill_grid 0 cells empty_grid"
  assume ?lhs
  then obtain gx gy where g: "0 \<le> gx" "gx < GRID_W" "0 \<le> gy" "gy < GRID_H"
    and cases: "(u, v) \<in> set (same_cell_pairs (?G ! nat gx ! nat gy))
                \<or> (u, v) \<in> set (neighbor_pairs ?G gx gy)"
    unfolding in_collision_pairs by blast
  note here = set_grid_cell [OF assms g]
  from cases show ?rhs
  proof
    assume "(u, v) \<in> set (same_cell_pairs (?G ! nat gx ! nat gy))"
    then have "u \<in> set (?G ! nat gx ! nat gy)" "v \<in> set (?G ! nat gx ! nat gy)" "u < v"
      unfolding set_same_cell_pairs [OF sorted_grid_cell [OF assms g]] by simp_all
    then show ?rhs unfolding here by simp
  next
    assume "(u, v) \<in> set (neighbor_pairs ?G gx gy)"
    then obtain d where d: "d \<in> set stencil"
      "0 \<le> gx + fst d" "gx + fst d < GRID_W" "0 \<le> gy + snd d" "gy + snd d < GRID_H"
      "u \<in> set (?G ! nat gx ! nat gy)"
      "v \<in> set (?G ! nat (gx + fst d) ! nat (gy + snd d))" "u < v"
      unfolding set_neighbor_pairs by blast
    have cu: "cells ! u = (gx, gy)" using d(6) unfolding here by simp
    have cv: "v < length cells" "cells ! v = (gx + fst d, gy + snd d)"
      using d(7) unfolding set_grid_cell [OF assms d(2,3,4,5)] by simp_all
    show ?rhs using d(1,8) cu cv by auto
  qed
next
  let ?G = "fill_grid 0 cells empty_grid"
  assume r: ?rhs
  then have uv: "u < v" "v < length cells" by simp_all
  then have ul: "u < length cells" by simp
  obtain gx gy where c: "cells ! u = (gx, gy)" by (cases "cells ! u")
  have g: "0 \<le> gx" "gx < GRID_W" "0 \<le> gy" "gy < GRID_H"
    using cells_in_grid_nth [OF assms ul] c by simp_all
  have uin: "u \<in> set (?G ! nat gx ! nat gy)"
    unfolding set_grid_cell [OF assms g] using ul c by simp
  from r have "cells ! u = cells ! v
     \<or> (\<exists>d \<in> set stencil. cells ! v = (fst (cells ! u) + fst d, snd (cells ! u) + snd d))"
    by simp
  then show ?lhs
  proof
    assume "cells ! u = cells ! v"
    then have "v \<in> set (?G ! nat gx ! nat gy)"
      unfolding set_grid_cell [OF assms g] using uv c by simp
    with uin uv have "(u, v) \<in> set (same_cell_pairs (?G ! nat gx ! nat gy))"
      unfolding set_same_cell_pairs [OF sorted_grid_cell [OF assms g]] by simp
    with g show ?lhs unfolding in_collision_pairs by blast
  next
    assume "\<exists>d \<in> set stencil. cells ! v = (fst (cells ! u) + fst d, snd (cells ! u) + snd d)"
    then obtain d where d: "d \<in> set stencil" "cells ! v = (gx + fst d, gy + snd d)"
      using c by auto
    have n: "0 \<le> gx + fst d" "gx + fst d < GRID_W" "0 \<le> gy + snd d" "gy + snd d < GRID_H"
      using cells_in_grid_nth [OF assms uv(2)] d(2) by simp_all
    have "v \<in> set (?G ! nat (gx + fst d) ! nat (gy + snd d))"
      unfolding set_grid_cell [OF assms n] using uv d(2) by simp
    with d(1) n uin uv have "(u, v) \<in> set (neighbor_pairs ?G gx gy)"
      unfolding set_neighbor_pairs by blast
    with g show ?lhs unfolding in_collision_pairs by blast
  qed
qed


lemma distinct_concat_map_disjoint:
  assumes "distinct xs"
    and "\<And>x. x \<in> set xs \<Longrightarrow> distinct (f x)"
    and "\<And>x y. x \<in> set xs \<Longrightarrow> y \<in> set xs \<Longrightarrow> x \<noteq> y \<Longrightarrow> set (f x) \<inter> set (f y) = {}"
  shows "distinct (concat (map f xs))"
  using assms
proof (induction xs)
  case Nil
  then show ?case by simp
next
  case (Cons a xs)
  have "set (f a) \<inter> set (f b) = {}" if "b \<in> set xs" for b
    using Cons.prems(3) [of a b] Cons.prems(1) that by auto
  then have "set (f a) \<inter> (\<Union>x\<in>set xs. set (f x)) = {}" by blast
  moreover have "distinct (concat (map f xs))"
    using Cons.IH Cons.prems by simp
  moreover have "distinct (f a)" using Cons.prems(2) by simp
  ultimately show ?case by simp
qed

lemma distinct_concat_map_tag:
  assumes "distinct xs"
    and "\<And>x. x \<in> set xs \<Longrightarrow> distinct (f x)"
    and "\<And>x e. x \<in> set xs \<Longrightarrow> e \<in> set (f x) \<Longrightarrow> tag e = x"
  shows "distinct (concat (map f xs))"
proof (rule distinct_concat_map_disjoint [OF assms(1,2)])
  fix a b
  assume ab: "a \<in> set xs" "b \<in> set xs" "a \<noteq> b"
  show "set (f a) \<inter> set (f b) = {}"
  proof (rule ccontr)
    assume "set (f a) \<inter> set (f b) \<noteq> {}"
    then obtain e where e: "e \<in> set (f a)" "e \<in> set (f b)" by auto
    have "tag e = a" using assms(3) ab(1) e(1) by simp
    moreover have "tag e = b" using assms(3) ab(2) e(2) by simp
    ultimately show False using ab(3) by simp
  qed
qed

lemma distinct_same_cell_pairs:
  assumes "distinct cell"
  shows "distinct (same_cell_pairs cell)"
  unfolding same_cell_pairs_def
proof (rule distinct_concat_map_disjoint)
  show "distinct [0..<length cell]" by simp
next
  fix i
  assume "i \<in> set [0..<length cell]"
  have "inj_on (\<lambda>j. (cell ! i, cell ! j)) (set [i + 1..<length cell])"
    using assms by (auto simp: inj_on_def nth_eq_iff_index_eq)
  then show "distinct (map (\<lambda>j. (cell ! i, cell ! j)) [i + 1..<length cell])"
    by (simp add: distinct_map)
next
  fix i k
  assume "i \<in> set [0..<length cell]" "k \<in> set [0..<length cell]" "i \<noteq> k"
  then have "cell ! i \<noteq> cell ! k"
    using assms by (simp add: nth_eq_iff_index_eq)
  then show "set (map (\<lambda>j. (cell ! i, cell ! j)) [i + 1..<length cell])
             \<inter> set (map (\<lambda>j. (cell ! k, cell ! j)) [k + 1..<length cell]) = {}"
    by auto
qed

lemma distinct_cross_pairs:
  fixes cell neighbor :: "nat list"
  assumes "distinct cell" and "distinct neighbor"
  shows "distinct (concat (map (\<lambda>i. concat (map (\<lambda>j. if i < j then [(i, j)] else []) neighbor))
                               cell))"
proof (rule distinct_concat_map_tag [where tag = fst, OF assms(1)])
  fix i :: nat
  show "distinct (concat (map (\<lambda>j. if i < j then [(i, j)] else []) neighbor))"
    by (rule distinct_concat_map_tag [where tag = snd, OF assms(2)]) (simp_all split: if_splits)
next
  fix i :: nat and e
  assume "e \<in> set (concat (map (\<lambda>j. if i < j then [(i, j)] else []) neighbor))"
  then show "fst e = i" by (auto split: if_splits)
qed


lemma distinct_grid_cell:
  assumes "cells_in_grid cells"
    and "0 \<le> gx" "gx < GRID_W" "0 \<le> gy" "gy < GRID_H"
  shows "distinct (fill_grid 0 cells empty_grid ! nat gx ! nat gy)"
  using sorted_grid_cell [OF assms] by (simp add: strict_sorted_iff)

lemma cell_pairs_first:
  assumes "cells_in_grid cells"
    and "0 \<le> gx" "gx < GRID_W" "0 \<le> gy" "gy < GRID_H"
    and "(u, v) \<in> set (same_cell_pairs (fill_grid 0 cells empty_grid ! nat gx ! nat gy)
                        @ neighbor_pairs (fill_grid 0 cells empty_grid) gx gy)"
  shows "cells ! u = (gx, gy)"
proof -
  have "u \<in> set (fill_grid 0 cells empty_grid ! nat gx ! nat gy)"
    using assms(6)
    unfolding set_append set_neighbor_pairs
      set_same_cell_pairs [OF sorted_grid_cell [OF assms(1-5)]]
    by blast
  then show ?thesis unfolding set_grid_cell [OF assms(1-5)] by simp
qed

lemma distinct_neighbor_pairs:
  assumes "cells_in_grid cells"
    and "0 \<le> gx" "gx < GRID_W" "0 \<le> gy" "gy < GRID_H"
  shows "distinct (neighbor_pairs (fill_grid 0 cells empty_grid) gx gy)"
  unfolding neighbor_pairs_def
proof (rule distinct_concat_map_tag
    [where tag = "\<lambda>e. (fst (cells ! snd e) - gx, snd (cells ! snd e) - gy)"])
  show "distinct stencil" by (simp add: stencil_def)
next
  fix d
  assume "d \<in> set stencil"
  obtain dx dy where d: "d = (dx, dy)" by (cases d)
  show "distinct (case d of (dx, dy) \<Rightarrow>
          let nx = gx + dx; ny = gy + dy
          in if 0 \<le> nx \<and> nx < GRID_W \<and> 0 \<le> ny \<and> ny < GRID_H
             then concat (map (\<lambda>i. concat (map (\<lambda>j. if i < j then [(i, j)] else [])
                     (fill_grid 0 cells empty_grid ! nat nx ! nat ny)))
                   (fill_grid 0 cells empty_grid ! nat gx ! nat gy))
             else [])"
    unfolding d Let_def prod.case
    using distinct_cross_pairs [OF distinct_grid_cell [OF assms]
        distinct_grid_cell [OF assms(1), of "gx + dx" "gy + dy"]]
    by simp
next
  fix d e
  assume "d \<in> set stencil"
    and e: "e \<in> set (case d of (dx, dy) \<Rightarrow>
          let nx = gx + dx; ny = gy + dy
          in if 0 \<le> nx \<and> nx < GRID_W \<and> 0 \<le> ny \<and> ny < GRID_H
             then concat (map (\<lambda>i. concat (map (\<lambda>j. if i < j then [(i, j)] else [])
                     (fill_grid 0 cells empty_grid ! nat nx ! nat ny)))
                   (fill_grid 0 cells empty_grid ! nat gx ! nat gy))
             else [])"
  obtain dx dy where d: "d = (dx, dy)" by (cases d)
  from e have n: "0 \<le> gx + dx" "gx + dx < GRID_W" "0 \<le> gy + dy" "gy + dy < GRID_H"
    and "snd e \<in> set (fill_grid 0 cells empty_grid ! nat (gx + dx) ! nat (gy + dy))"
    unfolding d Let_def prod.case by (auto split: if_splits)
  then have "cells ! snd e = (gx + dx, gy + dy)"
    unfolding set_grid_cell [OF assms(1) n] by simp
  then show "(fst (cells ! snd e) - gx, snd (cells ! snd e) - gy) = d"
    unfolding d by simp
qed

lemma distinct_cell_pairs:
  assumes "cells_in_grid cells"
    and "0 \<le> gx" "gx < GRID_W" "0 \<le> gy" "gy < GRID_H"
  shows "distinct (same_cell_pairs (fill_grid 0 cells empty_grid ! nat gx ! nat gy)
                   @ neighbor_pairs (fill_grid 0 cells empty_grid) gx gy)"
proof -
  let ?G = "fill_grid 0 cells empty_grid"
  have "set (same_cell_pairs (?G ! nat gx ! nat gy)) \<inter> set (neighbor_pairs ?G gx gy) = {}"
  proof (rule ccontr)
    assume "set (same_cell_pairs (?G ! nat gx ! nat gy)) \<inter> set (neighbor_pairs ?G gx gy) \<noteq> {}"
    then obtain u v where s: "(u, v) \<in> set (same_cell_pairs (?G ! nat gx ! nat gy))"
      and n: "(u, v) \<in> set (neighbor_pairs ?G gx gy)" by auto
    from s have "v \<in> set (?G ! nat gx ! nat gy)"
      unfolding set_same_cell_pairs [OF sorted_grid_cell [OF assms]] by simp
    then have here: "cells ! v = (gx, gy)"
      unfolding set_grid_cell [OF assms] by simp
    from n obtain d where d: "d \<in> set stencil"
      "0 \<le> gx + fst d" "gx + fst d < GRID_W" "0 \<le> gy + snd d" "gy + snd d < GRID_H"
      "v \<in> set (?G ! nat (gx + fst d) ! nat (gy + snd d))"
      unfolding set_neighbor_pairs by blast
    have "cells ! v = (gx + fst d, gy + snd d)"
      using d(6) unfolding set_grid_cell [OF assms(1) d(2-5)] by simp
    with here have "d = (0, 0)" by (cases d) simp
    with d(1) show False by (simp add: stencil_def)
  qed
  then show ?thesis
    using distinct_same_cell_pairs [OF distinct_grid_cell [OF assms]]
      distinct_neighbor_pairs [OF assms]
    by simp
qed

lemma distinct_collision_pairs:
  assumes "cells_in_grid cells"
  shows "distinct (collision_pairs (fill_grid 0 cells empty_grid))"
  unfolding collision_pairs_def
proof (rule distinct_concat_map_tag [where tag = "\<lambda>e. fst (cells ! fst e)"])
  show "distinct [0..GRID_W - 1]" by simp
next
  fix gx
  assume "gx \<in> set [0..GRID_W - 1]"
  then have gx: "0 \<le> gx" "gx < GRID_W" by simp_all
  show "distinct (concat (map (\<lambda>gy.
          same_cell_pairs (fill_grid 0 cells empty_grid ! nat gx ! nat gy)
          @ neighbor_pairs (fill_grid 0 cells empty_grid) gx gy) [0..GRID_H - 1]))"
  proof (rule distinct_concat_map_tag [where tag = "\<lambda>e. snd (cells ! fst e)"])
    show "distinct [0..GRID_H - 1]" by simp
  next
    fix gy
    assume "gy \<in> set [0..GRID_H - 1]"
    then have gy: "0 \<le> gy" "gy < GRID_H" by simp_all
    show "distinct (same_cell_pairs (fill_grid 0 cells empty_grid ! nat gx ! nat gy)
                    @ neighbor_pairs (fill_grid 0 cells empty_grid) gx gy)"
      using assms gx gy by (rule distinct_cell_pairs)
  next
    fix gy e
    assume "gy \<in> set [0..GRID_H - 1]"
      and e: "e \<in> set (same_cell_pairs (fill_grid 0 cells empty_grid ! nat gx ! nat gy)
                        @ neighbor_pairs (fill_grid 0 cells empty_grid) gx gy)"
    then have gy: "0 \<le> gy" "gy < GRID_H" by simp_all
    have "cells ! fst e = (gx, gy)"
      using cell_pairs_first [OF assms gx gy, of "fst e" "snd e"] e by simp
    then show "snd (cells ! fst e) = gy" by simp
  qed
next
  fix gx e
  assume "gx \<in> set [0..GRID_W - 1]"
    and e: "e \<in> set (concat (map (\<lambda>gy.
          same_cell_pairs (fill_grid 0 cells empty_grid ! nat gx ! nat gy)
          @ neighbor_pairs (fill_grid 0 cells empty_grid) gx gy) [0..GRID_H - 1]))"
  then have gx: "0 \<le> gx" "gx < GRID_W" by simp_all
  from e obtain gy where gy: "0 \<le> gy" "gy < GRID_H"
    and m: "e \<in> set (same_cell_pairs (fill_grid 0 cells empty_grid ! nat gx ! nat gy)
                        @ neighbor_pairs (fill_grid 0 cells empty_grid) gx gy)"
    by (auto simp: zle_diff1_eq)
  have "cells ! fst e = (gx, gy)"
    using cell_pairs_first [OF assms gx gy, of "fst e" "snd e"] m by simp
  then show "fst (cells ! fst e) = gx" by simp
qed

lemma in_brute_force_pairs:
  "(u, v) \<in> set (brute_force_pairs cells) \<longleftrightarrow>
     u < v \<and> v < length cells \<and> adjacent_cells (cells ! u) (cells ! v)"
  unfolding brute_force_pairs_def
  by (auto simp: Suc_le_eq split: if_splits)

lemma adjacent_cells_stencil:
  "adjacent_cells c d \<longleftrightarrow>
     c = d
     \<or> (\<exists>s \<in> set stencil. d = (fst c + fst s, snd c + snd s))
     \<or> (\<exists>s \<in> set stencil. c = (fst d + fst s, snd d + snd s))"
proof -
  obtain a b where c: "c = (a, b)" by (cases c)
  obtain a' b' where d: "d = (a', b')" by (cases d)
  show ?thesis
    unfolding c d adjacent_cells_def stencil_def
    by (simp add: abs_le_iff) presburger
qed

lemma stencil_one_way:
  assumes "\<exists>s \<in> set stencil. c = (fst d + fst s, snd d + snd s)"
  shows "c \<noteq> d \<and> \<not> (\<exists>s \<in> set stencil. d = (fst c + fst s, snd c + snd s))"
proof -
  obtain a b where c: "c = (a, b)" by (cases c)
  obtain a' b' where d: "d = (a', b')" by (cases d)
  show ?thesis
    using assms unfolding c d stencil_def
    by simp presburger
qed

lemma missed_pairs:
  assumes "cells_in_grid cells"
  shows "(u, v) \<in> set (brute_force_pairs cells) - set (collision_pairs (fill_grid 0 cells empty_grid))
         \<longleftrightarrow> u < v \<and> v < length cells
             \<and> (\<exists>s \<in> set stencil. cells ! u = (fst (cells ! v) + fst s, snd (cells ! v) + snd s))"
  unfolding Diff_iff in_brute_force_pairs collision_pairs_iff [OF assms]
    adjacent_cells_stencil [of "cells ! u" "cells ! v"]
  using stencil_one_way [of "cells ! u" "cells ! v"] by blast

lemma collision_pairs_subset_brute_force:
  assumes "cells_in_grid cells"
  shows "set (collision_pairs (fill_grid 0 cells empty_grid)) \<subseteq> set (brute_force_pairs cells)"
proof
  fix e
  assume e: "e \<in> set (collision_pairs (fill_grid 0 cells empty_grid))"
  obtain u v where uv: "e = (u, v)" by (cases e)
  show "e \<in> set (brute_force_pairs cells)"
    using e unfolding uv in_brute_force_pairs collision_pairs_iff [OF assms]
      adjacent_cells_stencil [of "cells ! u" "cells ! v"]
    by blast
qed

subsection \<open>A frame on concrete particles\<close>

lemma sqrt_4: "sqrt 4 = 2"
  using real_sqrt_abs [of 2] by simp

lemma pairs_same_cell_example:
  "collision_pairs (fill_grid 0 [(0, 15), (0, 15)] empty_grid) = [(0, 1)]"
  by code_simp

lemma pairs_swapped_example:
  "collision_pairs (fill_grid 0 [(1, 0), (0, 0)] empty_grid) = []"
  by code_simp

lemma pairs_unswapped_example:
  "collision_pairs (fill_grid 0 [(0, 0), (1, 0)] empty_grid) = [(0, 1)]"
  by code_simp

lemma integrate_example:
  "integrate [\<lparr>x = 6, y = 300, vx = - 1, vy = 0\<rparr>, \<lparr>x = 8, y = 300, vx = - 1, vy = 0\<rparr>]
   = [\<lparr>x = 5, y = 300, vx = - 1, vy = 0\<rparr>, \<lparr>x = 7, y = 300, vx = - 1, vy = 0\<rparr>]"
  by (simp add: integrate_def update_position_def check_walls_def Let_def DT_def
      PARTICLE_RADIUS_def WIDTH_def HEIGHT_def)

lemma cells_example:
  "map cell_of [\<lparr>x = 5, y = 300, vx = - 1, vy = 0\<rparr>, \<lparr>x = 7, y = 300, vx = - 1, vy = 0\<rparr>]
   = [(0, 15), (0, 15)]"
  by (simp add: cell_of_def Let_def CELL_SIZE_def PARTICLE_RADIUS_def GRID_W_def GRID_H_def
      WIDTH_def HEIGHT_def)

lemma collide_example:
  "collide_with \<lparr>x = 5, y = 300, vx = - 1, vy = 0\<rparr> \<lparr>x = 7, y = 300, vx = - 1, vy = 0\<rparr>
   = Inr (\<lparr>x = 1, y = 300, vx = - 1, vy = 0\<rparr>, \<lparr>x = 11, y = 300, vx = - 1, vy = 0\<rparr>)"
  by (simp add: collide_with_def Let_def sqrt_4 PARTICLE_RADIUS_def)

lemma step_example:
  "resolve_collisions
     (integrate [\<lparr>x = 6, y = 300, vx = - 1, vy = 0\<rparr>, \<lparr>x = 8, y = 300, vx = - 1, vy = 0\<rparr>])
   = Inr [\<lparr>x = 1, y = 300, vx = - 1, vy = 0\<rparr>, \<lparr>x = 11, y = 300, vx = - 1, vy = 0\<rparr>]"
  unfolding integrate_example resolve_collisions_def build_grid_def cells_example
    pairs_same_cell_example
  by (simp add: collide_example)

text \<open>
  Two particles next to the left wall, 2 apart after the position update: the collision
  pushes the left one to \<open>x = 1\<close>, inside the wall's margin, and the frame ends there.
\<close>

theorem full_step_containment_counterexample:
  "simulate_step 1 [\<lparr>x = 6, y = 300, vx = - 1, vy = 0\<rparr>, \<lparr>x = 8, y = 300, vx = - 1, vy = 0\<rparr>]
   = Inr ([\<lparr>x = 1, y = 300, vx = - 1, vy = 0\<rparr>, \<lparr>x = 11, y = 300, vx = - 1, vy = 0\<rparr>], None)
   \<and> \<not> in_domain \<lparr>x = 1, y = 300, vx = - 1, vy = 0\<rparr>"
  by (simp add: simulate_step_def step_example energy_diagnostic_def kinetic_energy_def Let_def
      in_domain_def PARTICLE_RADIUS_def)

text \<open>
  C8: a frame whose collisions return ends with the energy monitor. It sums
  \<open>0.5 * (vx\<^sup>2 + vy\<^sup>2)\<close> over the particles, and the frame reports the absolute
  difference to the baseline exactly when that difference is above \<open>1 / 1000\<close>; with
  or without a report, the frame returns the same particles and the run goes on with
  them. The baseline of \<^verbatim>\<open>simulate\<close> is that sum over the initial particles, taken once.
\<close>

theorem energy_monitor_step:
  assumes "resolve_collisions (integrate ps) = Inr ps'"
  shows "simulate_step E0 ps
         = Inr (ps', if 1 / 1000 < \<bar>(\<Sum>p\<leftarrow>ps'. 0.5 * ((vx p)\<^sup>2 + (vy p)\<^sup>2)) - E0\<bar>
                     then Some \<bar>(\<Sum>p\<leftarrow>ps'. 0.5 * ((vx p)\<^sup>2 + (vy p)\<^sup>2)) - E0\<bar>
                     else None)
       \<and> run E0 (Suc n) ps
         = (case run E0 n ps' of
              Inl e \<Rightarrow> Inl e
            | Inr (final, ds) \<Rightarrow>
                Inr (final,
                     (if 1 / 1000 < \<bar>(\<Sum>p\<leftarrow>ps'. 0.5 * ((vx p)\<^sup>2 + (vy p)\<^sup>2)) - E0\<bar>
                      then Some \<bar>(\<Sum>p\<leftarrow>ps'. 0.5 * ((vx p)\<^sup>2 + (vy p)\<^sup>2)) - E0\<bar>
                      else None) # ds))
       \<and> simulate (Suc n) ps = run (\<Sum>p\<leftarrow>ps. 0.5 * ((vx p)\<^sup>2 + (vy p)\<^sup>2)) (Suc n) ps"
proof -
  have step: "simulate_step E0 ps
         = Inr (ps', if 1 / 1000 < \<bar>(\<Sum>p\<leftarrow>ps'. 0.5 * ((vx p)\<^sup>2 + (vy p)\<^sup>2)) - E0\<bar>
                     then Some \<bar>(\<Sum>p\<leftarrow>ps'. 0.5 * ((vx p)\<^sup>2 + (vy p)\<^sup>2)) - E0\<bar>
                     else None)"
    using assms by (simp add: simulate_step_def energy_diagnostic_def kinetic_energy_def Let_def)
  have "run E0 (Suc n) ps
         = (case run E0 n ps' of
              Inl e \<Rightarrow> Inl e
            | Inr (final, ds) \<Rightarrow>
                Inr (final,
                     (if 1 / 1000 < \<bar>(\<Sum>p\<leftarrow>ps'. 0.5 * ((vx p)\<^sup>2 + (vy p)\<^sup>2)) - E0\<bar>
                      then Some \<bar>(\<Sum>p\<leftarrow>ps'. 0.5 * ((vx p)\<^sup>2 + (vy p)\<^sup>2)) - E0\<bar>
                      else None) # ds))"
    unfolding run.simps step by simp
  moreover have "simulate (Suc n) ps
      = run (\<Sum>p\<leftarrow>ps. 0.5 * ((vx p)\<^sup>2 + (vy p)\<^sup>2)) (Suc n) ps"
    unfolding simulate_def kinetic_energy_def ..
  ultimately show ?thesis using step by blast
qed

theorem energy_monitor_step_witness:
  "resolve_collisions
     (integrate [\<lparr>x = 6, y = 300, vx = - 1, vy = 0\<rparr>, \<lparr>x = 8, y = 300, vx = - 1, vy = 0\<rparr>])
   = Inr [\<lparr>x = 1, y = 300, vx = - 1, vy = 0\<rparr>, \<lparr>x = 11, y = 300, vx = - 1, vy = 0\<rparr>]
   \<and> simulate_step 0 [\<lparr>x = 6, y = 300, vx = - 1, vy = 0\<rparr>, \<lparr>x = 8, y = 300, vx = - 1, vy = 0\<rparr>]
     = Inr ([\<lparr>x = 1, y = 300, vx = - 1, vy = 0\<rparr>, \<lparr>x = 11, y = 300, vx = - 1, vy = 0\<rparr>], Some 1)
   \<and> run 0 (Suc 0) [\<lparr>x = 6, y = 300, vx = - 1, vy = 0\<rparr>, \<lparr>x = 8, y = 300, vx = - 1, vy = 0\<rparr>]
     = Inr ([\<lparr>x = 1, y = 300, vx = - 1, vy = 0\<rparr>, \<lparr>x = 11, y = 300, vx = - 1, vy = 0\<rparr>], [Some 1])"
  using energy_monitor_step [OF step_example, of 0 0] step_example
  by simp

lemma cells_unswapped:
  "map cell_of [\<lparr>x = 18, y = 10, vx = 1, vy = 0\<rparr>, \<lparr>x = 22, y = 10, vx = 1, vy = 0\<rparr>]
   = [(0, 0), (1, 0)]"
  by (simp add: cell_of_def Let_def CELL_SIZE_def PARTICLE_RADIUS_def GRID_W_def GRID_H_def
      WIDTH_def HEIGHT_def)

lemma cells_swapped:
  "map cell_of [\<lparr>x = 22, y = 10, vx = 1, vy = 0\<rparr>, \<lparr>x = 18, y = 10, vx = 1, vy = 0\<rparr>]
   = [(1, 0), (0, 0)]"
  by (simp add: cell_of_def Let_def CELL_SIZE_def PARTICLE_RADIUS_def GRID_W_def GRID_H_def
      WIDTH_def HEIGHT_def)

text \<open>
  C1: two overlapping particles in the neighbouring cells \<open>(1, 0)\<close> and \<open>(0, 0)\<close>,
  the one with the smaller index in the right cell. Only cell \<open>(0, 0)\<close> looks at
  cell \<open>(1, 0)\<close>, with offset \<open>(1, 0)\<close>, and there the test \<^verbatim>\<open>i < j\<close> drops the
  indices \<open>i = 1\<close>, \<open>j = 0\<close>: the frame never tests the two particles, while the
  enumeration of all pairs of touching cells has them. With the two particles in the
  other order the same two cells give the pair.
\<close>

theorem half_stencil_misses_pair:
  "map cell_of [\<lparr>x = 22, y = 10, vx = 1, vy = 0\<rparr>, \<lparr>x = 18, y = 10, vx = 1, vy = 0\<rparr>]
   = [(1, 0), (0, 0)]
   \<and> brute_force_pairs [(1, 0), (0, 0)] = [(0, 1)]
   \<and> collision_pairs
       (build_grid [\<lparr>x = 22, y = 10, vx = 1, vy = 0\<rparr>, \<lparr>x = 18, y = 10, vx = 1, vy = 0\<rparr>]) = []
   \<and> collision_pairs
       (build_grid [\<lparr>x = 18, y = 10, vx = 1, vy = 0\<rparr>, \<lparr>x = 22, y = 10, vx = 1, vy = 0\<rparr>])
       = [(0, 1)]"
  unfolding build_grid_def cells_swapped cells_unswapped pairs_swapped_example
    pairs_unswapped_example
  by (simp add: brute_force_pairs_def adjacent_cells_def)

end
